theory Spec2Isabelle
  imports Complex_Main "HOL-Library.Log_Nat"
begin

section \<open>Python values used by the summarizer\<close>

text \<open>
  Python strings are modelled as \<^typ>\<open>string\<close>: a character is a code point below 256.
  \<open>isspace\<close> is Python's \<open>str.isspace\<close> on these code points; the regular expression class
  \<open>\s\<close> of \<open>re\<close> matches the same characters on \<open>str\<close> patterns:
  TAB, LF, VT, FF, CR (9 to 13), FS, GS, RS, US (28 to 31), SPACE (32), NEL (133) and
  NO-BREAK SPACE (160).
\<close>

definition isspace :: "char \<Rightarrow> bool" where
  "isspace c =
     (let n = (of_char c :: nat)
      in (9 \<le> n \<and> n \<le> 13) \<or> (28 \<le> n \<and> n \<le> 32) \<or> n = 133 \<or> n = 160)"

text \<open>\<open>str.strip()\<close>: drop leading and trailing whitespace.\<close>

definition strip :: "string \<Rightarrow> string" where
  "strip s = rev (dropWhile isspace (rev (dropWhile isspace s)))"

text \<open>\<open>re.sub(r"\s+", " ", text)\<close>: every maximal run of whitespace becomes one space.\<close>

function collapse_ws :: "string \<Rightarrow> string" where
  "collapse_ws [] = []"
| "collapse_ws (c # cs) =
     (if isspace c then CHR '' '' # collapse_ws (dropWhile isspace cs)
      else c # collapse_ws cs)"
  by pat_completeness auto
termination
  by (relation "measure length") (auto simp: length_dropWhile_le less_Suc_eq_le)

text \<open>\<open>" ".join(xs)\<close>.\<close>

fun join_space :: "string list \<Rightarrow> string" where
  "join_space [] = []"
| "join_space [x] = x"
| "join_space (x # y # ys) = x @ CHR '' '' # join_space (y # ys)"

text \<open>
  Python floats are IEEE 754 doubles. A finite float is modelled as the real number it
  denotes; the infinities and NaN are values of their own. Every arithmetic result is
  rounded to the nearest double, ties to the even significand (\<open>round_double\<close>), and a
  result that leaves the range of a double becomes an infinity. Floats held in a result or
  in the matrix are always finite and are written as \<^typ>\<open>real\<close>.
\<close>

datatype pyfloat = Finite real | PosInf | NegInf | NaN

datatype py_error = ValueError | OverflowError | ZeroDivisionError

text \<open>\<open>round(x)\<close> on a float: to the nearest integer, ties to the even one.\<close>

definition py_round :: "real \<Rightarrow> int" where
  "py_round x =
     (let f = \<lfloor>x\<rfloor>; d = x - of_int f
      in if d < 1 / 2 then f
         else if 1 / 2 < d then f + 1
         else if even f then f else f + 1)"

text \<open>The power \<open>2\<^sup>e\<close> for an integer exponent.\<close>

definition pow2 :: "int \<Rightarrow> real" where
  "pow2 e = (if 0 \<le> e then 2 ^ nat e else 1 / 2 ^ nat (- e))"

text \<open>The binary exponent of \<open>x > 0\<close>: the \<open>e\<close> with \<open>2\<^sup>e \<le> x < 2\<^sup>e\<^sup>+\<^sup>1\<close>.\<close>

definition float_exponent :: "real \<Rightarrow> int" where
  "float_exponent x =
     (if 1 \<le> x then bitlen \<lfloor>x\<rfloor> - 1 else - bitlen (\<lceil>1 / x\<rceil> - 1))"

text \<open>
  Rounding to the nearest double: the significand has 53 bits, so the spacing of the
  doubles around \<open>x\<close> is \<open>2\<^sup>e\<^sup>-\<^sup>5\<^sup>2\<close>, and \<open>2\<^sup>-\<^sup>1\<^sup>0\<^sup>7\<^sup>4\<close> in the subnormal range. Ties go to
  the even significand.
\<close>

definition round_double :: "real \<Rightarrow> real" where
  "round_double x =
     (if x = 0 then 0
      else (let q = pow2 (max (float_exponent \<bar>x\<bar>) (- 1022) - 52)
            in of_int (py_round (x / q)) * q))"

text \<open>
  The least magnitude that rounds to an infinity (round to nearest, ties to even): half
  an ulp above the largest double.
\<close>

definition float_overflow :: real where
  "float_overflow = 2 ^ 1024 - 2 ^ 970"

text \<open>The float that an arithmetic operation returns when its exact result is \<open>x\<close>.\<close>

definition float_of_real :: "real \<Rightarrow> pyfloat" where
  "float_of_real x =
     (if float_overflow \<le> x then PosInf
      else if x \<le> - float_overflow then NegInf
      else Finite (round_double x))"

text \<open>
  The conversion of a length to a float, as \<open>int * float\<close> does it first. A length is
  below \<open>2\<^sup>6\<^sup>3\<close>, far inside the range of a double.
\<close>

definition float_of_len :: "nat \<Rightarrow> real" where
  "float_of_len n = round_double (real n)"

text \<open>\<open>n * x\<close> for an \<open>int\<close> \<open>n \<ge> 0\<close> (a length) and a float \<open>x\<close>.\<close>

fun mul_len_float :: "nat \<Rightarrow> pyfloat \<Rightarrow> pyfloat" where
  "mul_len_float n (Finite r) = float_of_real (float_of_len n * r)"
| "mul_len_float n PosInf = (if n = 0 then NaN else PosInf)"
| "mul_len_float n NegInf = (if n = 0 then NaN else NegInf)"
| "mul_len_float n NaN = NaN"

text \<open>
  \<open>m / n\<close> for two \<open>int\<close>s \<open>m, n \<ge> 0\<close> (lengths): the exact quotient, rounded once;
  \<open>ZeroDivisionError\<close> when \<open>n\<close> is 0.
\<close>

definition py_truediv :: "nat \<Rightarrow> nat \<Rightarrow> py_error + real" where
  "py_truediv m n =
     (if n = 0 then Inl ZeroDivisionError else Inr (round_double (real m / real n)))"

text \<open>Truncation toward zero.\<close>

definition trunc :: "real \<Rightarrow> int" where
  "trunc x = (if 0 \<le> x then \<lfloor>x\<rfloor> else \<lceil>x\<rceil>)"

text \<open>
  \<open>int(x)\<close> on a float: truncation toward zero; \<open>OverflowError\<close> on an infinity,
  \<open>ValueError\<close> on NaN.
\<close>

fun py_int :: "pyfloat \<Rightarrow> py_error + int" where
  "py_int (Finite x) = Inr (trunc x)"
| "py_int PosInf = Inl OverflowError"
| "py_int NegInf = Inl OverflowError"
| "py_int NaN = Inl ValueError"

text \<open>
  \<open>round(x, 2)\<close> on a float \<open>x\<close>: the exact value of \<open>x\<close> is rounded to the nearest
  multiple of 0.01, ties to even, and the result is the double nearest to that decimal.
\<close>

definition py_round2 :: "real \<Rightarrow> real" where
  "py_round2 x = round_double (of_int (py_round (x * 100)) / 100)"

section \<open>Preprocessing (\<open>src/preprocess.py\<close>)\<close>

text \<open>
  The only process-wide state of the program is the flag \<open>_NLTK_READY\<close>. It is threaded
  through every function that reaches \<open>ensure_nltk_data\<close>. What \<open>nltk.data.find\<close> and
  \<open>nltk.download\<close> do on disk is outside the model: the tokenizer data is taken to be
  available.
\<close>

record proc_state =
  nltk_ready :: bool

definition ensure_nltk_data :: "proc_state \<Rightarrow> proc_state" where
  "ensure_nltk_data s = (if nltk_ready s then s else s\<lparr>nltk_ready := True\<rparr>)"

text \<open>
  A sentence matrix as the vectorizer returns it: its shape \<open>(length rows, n_features)\<close>
  and its cells, row by row.
\<close>

record matrix =
  n_features :: nat
  rows :: "real list list"

text \<open>
  Modelled from the spec: the Grouper \<open>cluster_sentences\<close> of \<open>src/clustering.py\<close>, which
  is not among the sources. The spec fixes no algorithm for it, only a contract: it is a
  pure function of the matrix and the group count \<open>k\<close>, it returns one label per row, and
  it never raises for \<open>1 \<le> k \<le> N\<close>. It is therefore a parameter of the model.
\<close>

type_synonym grouper = "matrix \<Rightarrow> int \<Rightarrow> int list"

text \<open>
  The components that \<open>summarize\<close> calls and that are not defined in the sources.
  \<^item> \<open>sent_tokenize\<close>: NLTK's Punkt sentence tokenizer.
  \<^item> \<open>tfidf_weights\<close>: the weighting inside scikit-learn's
    \<open>TfidfVectorizer(stop_words="english", max_df=0.95, min_df=1, sublinear_tf=True)\<close>:
    the vocabulary and the cells \<open>tf * idf\<close>, before the rows are normalised; it raises
    \<open>ValueError\<close> when no term is left in the vocabulary.
  \<^item> \<open>cluster_sentences\<close>: the Grouper.
\<close>

record libs =
  sent_tokenize :: "string \<Rightarrow> string list"
  tfidf_weights :: "string list \<Rightarrow> py_error + matrix"
  cluster_sentences :: grouper

definition clean_text :: "string \<Rightarrow> string" where
  "clean_text text = (if text = [] then [] else strip (collapse_ws text))"

definition split_sentences :: "libs \<Rightarrow> proc_state \<Rightarrow> string \<Rightarrow> string list \<times> proc_state" where
  "split_sentences L s text =
     (let s' = ensure_nltk_data s;
          sentences = sent_tokenize L text
      in ([strip x. x \<leftarrow> sentences, strip x \<noteq> []], s'))"

definition preprocess_text ::
  "libs \<Rightarrow> proc_state \<Rightarrow> string \<Rightarrow> (string \<times> string list) \<times> proc_state" where
  "preprocess_text L s text =
     (let cleaned = clean_text text;
          (sentences, s') = split_sentences L s cleaned
      in ((cleaned, sentences), s'))"

section \<open>Feature extraction (\<open>src/feature_extraction.py\<close>)\<close>

text \<open>
  Modelled from the spec: the last step of the Vectorizer, which happens inside
  \<open>TfidfVectorizer.fit_transform\<close> (\<open>norm="l2"\<close> is its default, as the docstring of
  \<open>feature_extraction.py\<close> says). In the words of the spec: L2-normalize each row (divide
  by its Euclidean norm); rows with all-zero weight remain zero.
\<close>

definition l2_norm :: "real list \<Rightarrow> real" where
  "l2_norm row = sqrt (\<Sum>x\<leftarrow>row. x\<^sup>2)"

definition l2_normalize :: "real list \<Rightarrow> real list" where
  "l2_normalize row =
     (let n = l2_norm row in if n = 0 then row else map (\<lambda>x. x / n) row)"

definition fit_transform :: "libs \<Rightarrow> string list \<Rightarrow> py_error + matrix" where
  "fit_transform L sentences =
     (case tfidf_weights L sentences of
        Inl e \<Rightarrow> Inl e
      | Inr W \<Rightarrow> Inr (W\<lparr>rows := map l2_normalize (rows W)\<rparr>))"

definition build_tfidf_matrix :: "libs \<Rightarrow> string list \<Rightarrow> py_error + matrix" where
  "build_tfidf_matrix L sentences = fit_transform L sentences"

text \<open>
  \<open>tfidf_matrix.mean(axis=1)\<close>, flattened: the sum of each row divided by the number of
  columns. The library computes \<open>1.0 / shape[1]\<close> first, which raises on a matrix
  without columns.
\<close>

definition get_sentence_scores :: "matrix \<Rightarrow> py_error + real list" where
  "get_sentence_scores M =
     (if n_features M = 0 then Inl ZeroDivisionError
      else Inr (map (\<lambda>row. sum_list row / real (n_features M)) (rows M)))"

section \<open>Selection of representatives\<close>

text \<open>
  Modelled from the spec: the Selector \<open>select_representative_sentences\<close> of
  \<open>src/clustering.py\<close>, which is not among the sources. In the words of the spec: for
  each occupied group, choose the sentence with the maximum score among the members of
  that group, ties broken by the earliest original position; collect the chosen
  sentences and sort them by original position, ascending.

  An entry is a sentence's position with its label and its score.
\<close>

type_synonym entry = "nat \<times> int \<times> real"

definition entries :: "string list \<Rightarrow> int list \<Rightarrow> real list \<Rightarrow> entry list" where
  "entries sentences labels scores = zip [0..<length sentences] (zip labels scores)"

definition occupied_groups :: "entry list \<Rightarrow> int list" where
  "occupied_groups es = remdups (map (\<lambda>e. fst (snd e)) es)"

definition group_members :: "entry list \<Rightarrow> int \<Rightarrow> entry list" where
  "group_members es g = filter (\<lambda>e. fst (snd e) = g) es"

text \<open>The best entry so far is replaced only by a strictly greater score.\<close>

fun best_entry :: "entry \<Rightarrow> entry list \<Rightarrow> entry" where
  "best_entry b [] = b"
| "best_entry b (e # es) = best_entry (if snd (snd b) < snd (snd e) then e else b) es"

definition representative :: "entry list \<Rightarrow> int \<Rightarrow> nat option" where
  "representative es g =
     (case group_members es g of [] \<Rightarrow> None | m # ms \<Rightarrow> Some (fst (best_entry m ms)))"

text \<open>
  Modelled from the spec: the positions of the representatives, one for each occupied
  group, in ascending order; \<open>select_representative_sentences\<close> returns the sentences at
  these positions.
\<close>

definition select_positions :: "string list \<Rightarrow> int list \<Rightarrow> real list \<Rightarrow> nat list" where
  "select_positions sentences labels scores =
     (let es = entries sentences labels scores
      in sort (List.map_filter (representative es) (occupied_groups es)))"

definition select_representative_sentences ::
  "string list \<Rightarrow> int list \<Rightarrow> real list \<Rightarrow> string list" where
  "select_representative_sentences sentences labels scores =
     map (\<lambda>i. sentences ! i) (select_positions sentences labels scores)"

section \<open>The orchestrator (\<open>src/summarizer.py\<close>)\<close>

record summary_result =
  summary :: string
  original_sentence_count :: nat
  summary_sentence_count :: nat
  compression_ratio :: real

definition empty_result :: summary_result where
  "empty_result =
     \<lparr>summary = [], original_sentence_count = 0, summary_sentence_count = 0,
      compression_ratio = 0\<rparr>"

text \<open>
  Lines 62 and 63: \<open>n_clusters = max(1, int(len(sentences) * ratio))\<close>, then
  \<open>n_clusters = min(n_clusters, len(sentences))\<close>.
\<close>

definition n_clusters :: "nat \<Rightarrow> pyfloat \<Rightarrow> py_error + int" where
  "n_clusters n ratio =
     (case py_int (mul_len_float n ratio) of
        Inl e \<Rightarrow> Inl e
      | Inr i \<Rightarrow> Inr (min (max 1 i) (int n)))"

text \<open>Lines 66 to 80: the pipeline once the group count is known.\<close>

definition summarize_normal :: "libs \<Rightarrow> string list \<Rightarrow> int \<Rightarrow> py_error + summary_result" where
  "summarize_normal L sentences k =
     (case build_tfidf_matrix L sentences of
        Inl e \<Rightarrow> Inl e
      | Inr tfidf_matrix \<Rightarrow>
          (case get_sentence_scores tfidf_matrix of
             Inl e \<Rightarrow> Inl e
           | Inr scores \<Rightarrow>
               (let labels = cluster_sentences L tfidf_matrix k;
                    summary_sentences = select_representative_sentences sentences labels scores
                in case py_truediv (length summary_sentences) (length sentences) of
                     Inl e \<Rightarrow> Inl e
                   | Inr fraction \<Rightarrow>
                       Inr \<lparr>summary = join_space summary_sentences,
                            original_sentence_count = length sentences,
                            summary_sentence_count = length summary_sentences,
                            compression_ratio = py_round2 fraction\<rparr>)))"

definition summarize ::
  "libs \<Rightarrow> proc_state \<Rightarrow> string \<Rightarrow> pyfloat \<Rightarrow> (py_error + summary_result) \<times> proc_state" where
  "summarize L s text ratio =
     (if text = [] \<or> strip text = [] then (Inr empty_result, s)
      else
        (let ((cleaned, sentences), s') = preprocess_text L s text
         in if length sentences \<le> 2
            then (Inr \<lparr>summary = cleaned,
                       original_sentence_count = length sentences,
                       summary_sentence_count = length sentences,
                       compression_ratio = 1\<rparr>, s')
            else (case n_clusters (length sentences) ratio of
                    Inl e \<Rightarrow> (Inl e, s')
                  | Inr k \<Rightarrow> (summarize_normal L sentences k, s'))))"

section \<open>A concrete instance of the external components\<close>

text \<open>
  To run the model on concrete texts: a tokenizer that ends a sentence after every full
  stop, a weighting with two columns (no weight for a sentence of fewer than five
  characters, the cells 0 and 5 for a sentence with an even number of characters, 3 and
  4 otherwise), and a grouper that deals the rows out to the \<open>k\<close> groups in turn.
\<close>

fun split_after_stop :: "string \<Rightarrow> string \<Rightarrow> string list" where
  "split_after_stop acc [] = (if acc = [] then [] else [rev acc])"
| "split_after_stop acc (c # cs) =
     (if c = CHR ''.'' then rev (c # acc) # split_after_stop [] cs
      else split_after_stop (c # acc) cs)"

definition sample_libs :: libs where
  "sample_libs =
     \<lparr>sent_tokenize = split_after_stop [],
      tfidf_weights =
        (\<lambda>ss. Inr \<lparr>n_features = 2,
                    rows = map (\<lambda>x. if length x < 5 then [0, 0]
                                     else if even (length x) then [0, 5] else [3, 4]) ss\<rparr>),
      cluster_sentences = (\<lambda>M k. map (\<lambda>i. int i mod k) [0..<length (rows M)])\<rparr>"

definition cold :: proc_state where
  "cold = \<lparr>nltk_ready = False\<rparr>"

text \<open>A tokenizer that finds no sentence at all, and the state of a process that has
  already initialised the tokenizer data.\<close>

definition silent_libs :: libs where
  "silent_libs = sample_libs\<lparr>sent_tokenize := (\<lambda>text. [])\<rparr>"

definition warm :: proc_state where
  "warm = \<lparr>nltk_ready = True\<rparr>"

section \<open>The group count in the words of the spec\<close>

text \<open>
  \<open>k = clamp(round(N * ratio), 1, N)\<close>, with the float product and Python's \<open>round\<close>, to
  be compared with \<open>n_clusters\<close>.
\<close>

definition clamp :: "int \<Rightarrow> int \<Rightarrow> int \<Rightarrow> int" where
  "clamp x lo hi = max lo (min x hi)"

definition spec_group_count :: "nat \<Rightarrow> real \<Rightarrow> int" where
  "spec_group_count n r = clamp (py_round (round_double (float_of_len n * r))) 1 (int n)"

text \<open>A matrix with an all-zero row and a row of unit length.\<close>

definition sample_matrix :: matrix where
  "sample_matrix = \<lparr>n_features = 2, rows = [[0, 0], [3 / 5, 4 / 5]]\<rparr>"

section \<open>The degenerate regimes\<close>

lemmas run_defs =
  strip_def isspace_def clean_text_def split_sentences_def preprocess_text_def
  ensure_nltk_data_def sample_libs_def cold_def warm_def

lemma strip_eq_Nil_iff: "strip s = [] \<longleftrightarrow> (\<forall>c\<in>set s. isspace c)"
proof
  assume "strip s = []"
  then have all: "\<forall>c\<in>set (dropWhile isspace s). isspace c"
    by (simp add: strip_def dropWhile_eq_Nil_conv)
  have "dropWhile isspace s = []"
  proof (cases "dropWhile isspace s")
    case Nil
    then show ?thesis .
  next
    case (Cons c cs)
    then have "\<not> isspace c"
      using hd_dropWhile [of isspace s] by simp
    with all Cons show ?thesis by simp
  qed
  then show "\<forall>c\<in>set s. isspace c"
    by (simp add: dropWhile_eq_Nil_conv)
next
  assume "\<forall>c\<in>set s. isspace c"
  then show "strip s = []"
    by (auto simp: strip_def dest: set_dropWhileD)
qed

lemma summarize_guard:
  "(\<forall>c\<in>set text. isspace c) \<Longrightarrow> summarize L s text ratio = (Inr empty_result, s)"
  by (simp add: summarize_def strip_eq_Nil_iff)

lemma summarize_short:
  assumes "\<not> (\<forall>c\<in>set text. isspace c)"
    and "preprocess_text L s text = ((cleaned, sentences), s')"
    and "length sentences \<le> 2"
  shows "summarize L s text ratio =
     (Inr \<lparr>summary = cleaned, original_sentence_count = length sentences,
           summary_sentence_count = length sentences, compression_ratio = 1\<rparr>, s')"
proof -
  from assms(1) have "text \<noteq> []" and "strip text \<noteq> []"
    by (auto simp: strip_eq_Nil_iff)
  with assms(2,3) show ?thesis
    by (simp add: summarize_def)
qed

lemma preprocess_text_cleaned:
  "preprocess_text L s text = ((cleaned, sentences), s') \<Longrightarrow> cleaned = clean_text text"
  by (auto simp: preprocess_text_def Let_def split: prod.splits)

text \<open>
  Claim C4. When the input text is empty or consists only of whitespace, \<open>summarize\<close>
  returns the zero-valued result: empty summary, both counts 0, compression ratio 0.0. It
  does so for every tokenizer, vectorizer and grouper, for every ratio, and leaves the
  process state as it was: none of the components is reached.
\<close>

theorem summarize_empty_regime:
  assumes "text = [] \<or> (\<forall>c\<in>set text. isspace c)"
  shows "summarize L s text ratio =
     (Inr \<lparr>summary = [], original_sentence_count = 0, summary_sentence_count = 0,
           compression_ratio = 0\<rparr>, s)"
  using assms summarize_guard [of "text" L s ratio] by (auto simp: empty_result_def)

theorem summarize_empty_regime_witness:
  "(''  '' = [] \<or> (\<forall>c\<in>set ''  ''. isspace c)) \<and>
   summarize silent_libs cold ''  '' NaN =
     (Inr \<lparr>summary = [], original_sentence_count = 0, summary_sentence_count = 0,
           compression_ratio = 0\<rparr>, cold)"
proof -
  have h: "''  '' = [] \<or> (\<forall>c\<in>set ''  ''. isspace c)"
    by (simp add: isspace_def)
  show ?thesis
    using h summarize_empty_regime [OF h, of silent_libs cold NaN] by simp
qed

text \<open>
  Claim C3. When the text is neither empty nor all whitespace and its cleaned form splits
  into at most two sentences, \<open>summarize\<close> returns the cleaned text itself as the summary,
  the number of sentences as both counts, and the compression ratio 1.0.
\<close>

theorem summarize_trivial_regime:
  assumes "\<not> (text = [] \<or> (\<forall>c\<in>set text. isspace c))"
    and "preprocess_text L s text = ((cleaned, sentences), s')"
    and "length sentences \<le> 2"
  shows "cleaned = clean_text text \<and>
     summarize L s text ratio =
       (Inr \<lparr>summary = cleaned, original_sentence_count = length sentences,
             summary_sentence_count = length sentences, compression_ratio = 1\<rparr>, s')"
  using assms summarize_short [of "text" L s cleaned sentences s' ratio]
    preprocess_text_cleaned [of L s "text" cleaned sentences s']
  by simp

theorem summarize_trivial_regime_witness:
  "\<not> (''One sentence. Two sentences.'' = [] \<or>
      (\<forall>c\<in>set ''One sentence. Two sentences.''. isspace c)) \<and>
   preprocess_text sample_libs cold ''One sentence. Two sentences.'' =
     ((''One sentence. Two sentences.'', [''One sentence.'', ''Two sentences.'']), warm) \<and>
   length [''One sentence.'', ''Two sentences.''] \<le> 2 \<and>
   summarize sample_libs cold ''One sentence. Two sentences.'' (Finite (3 / 10)) =
     (Inr \<lparr>summary = ''One sentence. Two sentences.'', original_sentence_count = 2,
           summary_sentence_count = 2, compression_ratio = 1\<rparr>, warm)"
proof -
  have h1: "\<not> (''One sentence. Two sentences.'' = [] \<or>
      (\<forall>c\<in>set ''One sentence. Two sentences.''. isspace c))"
    by (simp add: isspace_def)
  have h2: "preprocess_text sample_libs cold ''One sentence. Two sentences.'' =
     ((''One sentence. Two sentences.'', [''One sentence.'', ''Two sentences.'']), warm)"
    by (simp add: run_defs)
  have h3: "length [''One sentence.'', ''Two sentences.''] \<le> 2"
    by simp
  show ?thesis
    using h1 h2 summarize_trivial_regime [OF h1 h2 h3, of "Finite (3 / 10)"] by simp
qed

text \<open>
  Claim C10. When the text is neither empty nor all whitespace but the sentence split
  yields no sentence, \<open>summarize\<close> returns the cleaned text as the summary with both
  counts 0 and the compression ratio 1.0, which is not the zero-valued result of the
  empty regime.
\<close>

theorem summarize_no_sentences:
  assumes "\<not> (text = [] \<or> (\<forall>c\<in>set text. isspace c))"
    and "preprocess_text L s text = ((cleaned, []), s')"
  shows "cleaned = clean_text text \<and>
     summarize L s text ratio =
       (Inr \<lparr>summary = cleaned, original_sentence_count = 0,
             summary_sentence_count = 0, compression_ratio = 1\<rparr>, s') \<and>
     fst (summarize L s text ratio) \<noteq> Inr empty_result"
  using assms summarize_short [of "text" L s cleaned "[]" s' ratio]
    preprocess_text_cleaned [of L s "text" cleaned "[]" s']
  by (simp add: empty_result_def)

theorem summarize_no_sentences_witness:
  "\<not> (''no stop here'' = [] \<or> (\<forall>c\<in>set ''no stop here''. isspace c)) \<and>
   preprocess_text silent_libs cold ''no stop here'' = ((''no stop here'', []), warm) \<and>
   summarize silent_libs cold ''no stop here'' (Finite (3 / 10)) =
     (Inr \<lparr>summary = ''no stop here'', original_sentence_count = 0,
           summary_sentence_count = 0, compression_ratio = 1\<rparr>, warm)"
proof -
  have h1: "\<not> (''no stop here'' = [] \<or> (\<forall>c\<in>set ''no stop here''. isspace c))"
    by (simp add: isspace_def)
  have h2: "preprocess_text silent_libs cold ''no stop here'' = ((''no stop here'', []), warm)"
    by (simp add: run_defs silent_libs_def)
  show ?thesis
    using h1 h2 summarize_no_sentences [OF h1 h2, of "Finite (3 / 10)"] by simp
qed

section \<open>Rounding to a double\<close>

lemmas fl_defs = round_double_def float_exponent_def pow2_def py_round_def compute_bitlen

lemma pow2_pos: "0 < pow2 e"
  by (simp add: pow2_def)

lemma py_round_near: "x - 1 / 2 \<le> of_int (py_round x) \<and> of_int (py_round x) \<le> x + 1 / 2"
  unfolding py_round_def Let_def by (auto simp: not_less) linarith+

lemma py_round_ge_int: "of_int K \<le> y \<Longrightarrow> K \<le> py_round y"
  using py_round_near [of y] by linarith

lemma py_round_le_int: "y \<le> of_int K \<Longrightarrow> py_round y \<le> K"
  using py_round_near [of y] by linarith

lemma round_double_quantum:
  "x \<noteq> 0 \<Longrightarrow> \<exists>q. 0 < q \<and> round_double x = of_int (py_round (x / q)) * q"
  unfolding round_double_def Let_def using pow2_pos by auto

lemma round_double_nonneg: "0 \<le> x \<Longrightarrow> 0 \<le> round_double x"
proof (cases "x = 0")
  case True
  then show ?thesis by (simp add: round_double_def)
next
  case False
  assume "0 \<le> x"
  from round_double_quantum [OF False] obtain q where q: "0 < q"
    and r: "round_double x = of_int (py_round (x / q)) * q"
    by blast
  from \<open>0 \<le> x\<close> q have "of_int 0 \<le> x / q"
    by simp
  then have "0 \<le> py_round (x / q)"
    by (rule py_round_ge_int)
  with q show ?thesis
    by (simp add: r)
qed

lemma round_double_nonpos: "x \<le> 0 \<Longrightarrow> round_double x \<le> 0"
proof (cases "x = 0")
  case True
  then show ?thesis by (simp add: round_double_def)
next
  case False
  assume "x \<le> 0"
  from round_double_quantum [OF False] obtain q where q: "0 < q"
    and r: "round_double x = of_int (py_round (x / q)) * q"
    by blast
  from \<open>x \<le> 0\<close> q have "x / q \<le> of_int 0"
    by (simp add: divide_le_0_iff)
  then have "py_round (x / q) \<le> 0"
    by (rule py_round_le_int)
  with q show ?thesis
    by (simp add: r mult_le_0_iff)
qed

lemma bitlen_one: "bitlen 1 = 1"
  by (simp add: compute_bitlen)

lemma float_exponent_unit: "0 < x \<Longrightarrow> x \<le> 1 \<Longrightarrow> float_exponent x \<le> 0"
  using bitlen_nonneg [of "\<lceil>1 / x\<rceil> - 1"]
  by (auto simp: float_exponent_def bitlen_one)

lemma round_double_le_one:
  assumes "x \<le> 1"
  shows "round_double x \<le> 1"
proof (cases "x \<le> 0")
  case True
  then have "round_double x \<le> 0"
    by (rule round_double_nonpos)
  then show ?thesis by simp
next
  case False
  then have pos: "0 < x" by simp
  define j where "j = max (float_exponent \<bar>x\<bar>) (- 1022) - 52"
  define n where "n = nat (- j)"
  have "float_exponent \<bar>x\<bar> \<le> 0"
    using float_exponent_unit [of x] pos assms by simp
  then have "j < 0"
    by (simp add: j_def)
  then have q: "pow2 j = 1 / 2 ^ n"
    by (simp add: pow2_def n_def)
  have "round_double x = of_int (py_round (x / pow2 j)) * pow2 j"
    unfolding round_double_def Let_def j_def using pos by simp
  then have r: "round_double x = of_int (py_round (x * 2 ^ n)) / 2 ^ n"
    by (simp add: q)
  have "x * 2 ^ n \<le> of_int (2 ^ n)"
    using assms by simp
  then have "py_round (x * 2 ^ n) \<le> 2 ^ n"
    by (rule py_round_le_int)
  then have "(of_int (py_round (x * 2 ^ n)) :: real) \<le> of_int (2 ^ n)"
    by (simp only: of_int_le_iff)
  then show ?thesis
    by (simp add: r divide_le_eq)
qed

lemma float_exponent_ge_one:
  assumes "1 \<le> x"
  shows "0 \<le> float_exponent x \<and> 2 ^ nat (float_exponent x) \<le> x"
proof -
  from assms have fl: "0 < \<lfloor>x\<rfloor>"
    by simp
  have e: "float_exponent x = bitlen \<lfloor>x\<rfloor> - 1"
    using assms by (simp add: float_exponent_def)
  from fl have "1 \<le> bitlen \<lfloor>x\<rfloor>"
    using bitlen_eq_zero_iff [of "\<lfloor>x\<rfloor>"] bitlen_nonneg [of "\<lfloor>x\<rfloor>"] by linarith
  moreover from bitlen_bounds [OF fl] have "(2::int) ^ nat (bitlen \<lfloor>x\<rfloor> - 1) \<le> \<lfloor>x\<rfloor>"
    by simp
  then have "(2::real) ^ nat (bitlen \<lfloor>x\<rfloor> - 1) \<le> x"
    by (simp add: le_floor_iff)
  ultimately show ?thesis
    by (simp add: e)
qed

lemma round_double_ge_nat:
  assumes "1 \<le> n" and "n \<le> 2 ^ 53" and "real n \<le> x"
  shows "real n \<le> round_double x"
proof -
  from assms have x1: "1 \<le> x" and x0: "x \<noteq> 0" and ax: "\<bar>x\<bar> = x"
    by auto
  define e where "e = float_exponent x"
  from float_exponent_ge_one [OF x1] have e0: "0 \<le> e" and pw: "2 ^ nat e \<le> x"
    by (simp_all add: e_def)
  have r: "round_double x = of_int (py_round (x / pow2 (e - 52))) * pow2 (e - 52)"
    using x0 e0 by (simp add: round_double_def Let_def ax max_def flip: e_def)
  show ?thesis
  proof (cases "e \<le> 52")
    case True
    define m where "m = nat (52 - e)"
    have q: "pow2 (e - 52) = 1 / 2 ^ m"
      using True by (auto simp: pow2_def m_def)
    have "of_int (int n * 2 ^ m) \<le> x * 2 ^ m"
      using assms(3) by simp
    then have "int n * 2 ^ m \<le> py_round (x * 2 ^ m)"
      by (rule py_round_ge_int)
    then have "(of_int (int n * 2 ^ m) :: real) \<le> of_int (py_round (x * 2 ^ m))"
      by (simp only: of_int_le_iff)
    then show ?thesis
      by (simp add: r q le_divide_eq)
  next
    case False
    define m where "m = nat (e - 52)"
    have q: "pow2 (e - 52) = 2 ^ m"
      using False by (auto simp: pow2_def m_def)
    have split: "nat e = 52 + m"
      using False by (simp add: m_def)
    have m1: "1 \<le> m"
      using False by (simp add: m_def)
    have "(2::real) ^ 52 * 2 ^ m \<le> x"
      using pw by (simp add: split power_add)
    then have "of_int (2 ^ 52) \<le> x / 2 ^ m"
      by (simp add: le_divide_eq)
    then have "2 ^ 52 \<le> py_round (x / 2 ^ m)"
      by (rule py_round_ge_int)
    then have "(of_int (2 ^ 52) :: real) \<le> of_int (py_round (x / 2 ^ m))"
      by (simp only: of_int_le_iff)
    then have low: "(2::real) ^ 52 * 2 ^ m \<le> of_int (py_round (x / 2 ^ m)) * 2 ^ m"
      by simp
    have "real n \<le> 2 ^ 53"
      using assms(2) by (metis of_nat_le_iff of_nat_numeral of_nat_power)
    also have "(2::real) ^ 53 = 2 ^ 52 * 2 ^ 1"
      by simp
    also have "\<dots> \<le> 2 ^ 52 * 2 ^ m"
      using m1 by (intro mult_left_mono power_increasing) simp_all
    also note low
    also have "of_int (py_round (x / 2 ^ m)) * 2 ^ m = round_double x"
      by (simp only: r q)
    finally show ?thesis .
  qed
qed

lemma round_double_le_nat:
  assumes "n \<le> 2 ^ 53" and "x \<le> real n"
  shows "round_double x \<le> real n"
proof (cases "x < 1")
  case True
  show ?thesis
  proof (cases "x \<le> 0")
    case True
    then have "round_double x \<le> 0"
      by (rule round_double_nonpos)
    then show ?thesis by simp
  next
    case False
    with assms(2) have "1 \<le> n"
      by (cases n) auto
    moreover from \<open>x < 1\<close> have "round_double x \<le> 1"
      by (intro round_double_le_one) simp
    ultimately show ?thesis by simp
  qed
next
  case False
  then have x1: "1 \<le> x" and x0: "x \<noteq> 0" and ax: "\<bar>x\<bar> = x"
    by auto
  define e where "e = float_exponent x"
  from float_exponent_ge_one [OF x1] have e0: "0 \<le> e" and pw: "2 ^ nat e \<le> x"
    by (simp_all add: e_def)
  have r: "round_double x = of_int (py_round (x / pow2 (e - 52))) * pow2 (e - 52)"
    using x0 e0 by (simp add: round_double_def Let_def ax max_def flip: e_def)
  have n53: "real n \<le> 2 ^ 53"
    using assms(1) by (metis of_nat_le_iff of_nat_numeral of_nat_power)
  show ?thesis
  proof (cases "e \<le> 52")
    case True
    define m where "m = nat (52 - e)"
    have q: "pow2 (e - 52) = 1 / 2 ^ m"
      using True by (auto simp: pow2_def m_def)
    have "x * 2 ^ m \<le> of_int (int n * 2 ^ m)"
      using assms(2) by simp
    then have "py_round (x * 2 ^ m) \<le> int n * 2 ^ m"
      by (rule py_round_le_int)
    then have "(of_int (py_round (x * 2 ^ m)) :: real) \<le> of_int (int n * 2 ^ m)"
      by (simp only: of_int_le_iff)
    then show ?thesis
      by (simp add: r q divide_le_eq)
  next
    case False
    have two: "(1::real) < 2"
      by simp
    have "(2::real) ^ nat e \<le> 2 ^ 53"
      using pw assms(2) n53 by linarith
    then have "nat e \<le> 53"
      by (rule power_le_imp_le_exp [OF two])
    with False have e53: "e = 53"
      by linarith
    have q: "pow2 (e - 52) = 2"
      by (simp add: e53 pow2_def)
    from pw assms(2) n53 have x: "x = 2 ^ 53" and n: "real n = 2 ^ 53"
      by (simp_all add: e53)
    have "x / 2 \<le> of_int (2 ^ 52)"
      by (simp add: x)
    then have "py_round (x / 2) \<le> 2 ^ 52"
      by (rule py_round_le_int)
    then have "(of_int (py_round (x / 2)) :: real) \<le> of_int (2 ^ 52)"
      by (simp only: of_int_le_iff)
    then show ?thesis
      by (simp add: r q n)
  qed
qed

lemma round_double_of_nat: "n \<le> 2 ^ 53 \<Longrightarrow> round_double (real n) = real n"
proof (cases "n = 0")
  case True
  then show ?thesis by (simp add: round_double_def)
next
  case False
  assume le: "n \<le> 2 ^ 53"
  from False have "1 \<le> n" by simp
  from round_double_ge_nat [OF this le, of "real n"] round_double_le_nat [OF le, of "real n"]
  show ?thesis by simp
qed

section \<open>The Selector\<close>

lemma best_entry_mem: "best_entry b es \<in> set (b # es)"
  by (induction es arbitrary: b) auto

lemma set_group_members: "set (group_members es g) = {e \<in> set es. fst (snd e) = g}"
  by (auto simp: group_members_def)

lemma representative_SomeD:
  assumes "representative es g = Some p"
  shows "\<exists>s. (p, g, s) \<in> set es"
proof -
  from assms obtain m ms where ms: "group_members es g = m # ms"
    and p: "p = fst (best_entry m ms)"
    by (auto simp: representative_def split: list.splits)
  have "best_entry m ms \<in> set (group_members es g)"
    using best_entry_mem [of m ms] ms by simp
  then have "best_entry m ms \<in> set es" and "fst (snd (best_entry m ms)) = g"
    by (simp_all add: set_group_members)
  with p show ?thesis
    by (cases "best_entry m ms") auto
qed

lemma representative_occupied:
  assumes "g \<in> set (occupied_groups es)"
  shows "\<exists>p. representative es g = Some p"
proof -
  from assms obtain e where "e \<in> set es" and "fst (snd e) = g"
    by (auto simp: occupied_groups_def)
  then have "e \<in> set (group_members es g)"
    by (simp add: set_group_members)
  then have "group_members es g \<noteq> []"
    by auto
  then show ?thesis
    by (auto simp: representative_def split: list.splits)
qed

lemma entries_mem:
  assumes "(p, l, s) \<in> set (entries ss labels scores)"
  shows "p < length ss \<and> p < length labels \<and> p < length scores \<and>
         l = labels ! p \<and> s = scores ! p"
  using assms by (auto simp: entries_def set_zip)

lemma entries_nth_mem:
  assumes "i < length ss" and "i < length labels" and "i < length scores"
  shows "(i, labels ! i, scores ! i) \<in> set (entries ss labels scores)"
  using assms by (force simp: entries_def set_zip)

lemma representatives_distinct:
  "distinct (List.map_filter (representative (entries ss labels scores))
               (occupied_groups (entries ss labels scores)))"
proof -
  let ?es = "entries ss labels scores"
  let ?f = "representative ?es"
  have inj: "inj_on (the \<circ> ?f) {g \<in> set (occupied_groups ?es). ?f g \<noteq> None}"
  proof (rule inj_onI)
    fix g h
    assume "g \<in> {g \<in> set (occupied_groups ?es). ?f g \<noteq> None}"
      and "h \<in> {g \<in> set (occupied_groups ?es). ?f g \<noteq> None}"
      and eq: "(the \<circ> ?f) g = (the \<circ> ?f) h"
    then obtain p where g: "?f g = Some p" and h: "?f h = Some p"
      by auto
    from representative_SomeD [OF g] representative_SomeD [OF h]
    show "g = h"
      by (auto dest!: entries_mem)
  qed
  have "distinct (filter (\<lambda>g. ?f g \<noteq> None) (occupied_groups ?es))"
    by (simp add: occupied_groups_def)
  with inj show ?thesis
    by (simp add: List.map_filter_def distinct_map)
qed

lemma set_map_filter: "set (List.map_filter f xs) = {y. \<exists>x\<in>set xs. f x = Some y}"
  by (force simp: List.map_filter_def image_iff)

lemma select_positions_sorted: "sorted_wrt (<) (select_positions ss labels scores)"
  using representatives_distinct [of ss labels scores]
  by (simp add: select_positions_def Let_def strict_sorted_iff)

lemma select_positions_bound:
  assumes "p \<in> set (select_positions ss labels scores)"
  shows "p < length ss"
proof -
  from assms obtain g where "representative (entries ss labels scores) g = Some p"
    by (auto simp: select_positions_def Let_def set_map_filter)
  from representative_SomeD [OF this] show ?thesis
    by (auto dest: entries_mem)
qed

lemma select_positions_length: "length (select_positions ss labels scores) \<le> length ss"
proof -
  let ?ps = "select_positions ss labels scores"
  have "distinct ?ps"
    using select_positions_sorted [of ss labels scores] by (simp add: strict_sorted_iff)
  then have "length ?ps = card (set ?ps)"
    by (simp add: distinct_card)
  also have "\<dots> \<le> card {..<length ss}"
    by (rule card_mono) (auto dest: select_positions_bound)
  finally show ?thesis by simp
qed

lemma group_is_represented:
  assumes "i < length ss" and "i < length labels" and "i < length scores"
  shows "\<exists>p\<in>set (select_positions ss labels scores). labels ! p = labels ! i"
proof -
  let ?es = "entries ss labels scores"
  have "labels ! i \<in> set (occupied_groups ?es)"
    using entries_nth_mem [OF assms] by (force simp: occupied_groups_def)
  from representative_occupied [OF this]
  obtain p where p: "representative ?es (labels ! i) = Some p" ..
  then have "p \<in> set (select_positions ss labels scores)"
    using \<open>labels ! i \<in> set (occupied_groups ?es)\<close>
    by (auto simp: select_positions_def Let_def set_map_filter)
  moreover from representative_SomeD [OF p] have "labels ! p = labels ! i"
    by (auto dest: entries_mem)
  ultimately show ?thesis by blast
qed

section \<open>The group count and the normal regime\<close>

lemma float_of_len_exact: "n \<le> 2 ^ 53 \<Longrightarrow> float_of_len n = real n"
  by (simp add: float_of_len_def round_double_of_nat)

lemma n_clusters_finite:
  assumes "\<bar>float_of_len n * r\<bar> < float_overflow"
  shows "n_clusters n (Finite r) =
     Inr (min (max 1 (trunc (round_double (float_of_len n * r)))) (int n))"
proof -
  from assms have "float_of_real (float_of_len n * r) = Finite (round_double (float_of_len n * r))"
    by (auto simp: float_of_real_def)
  then show ?thesis
    by (simp add: n_clusters_def)
qed

lemma clamp_code_order: "1 \<le> hi \<Longrightarrow> min (max 1 x) hi = clamp x 1 hi"
  by (auto simp: clamp_def)

lemma clamp_bounds: "lo \<le> hi \<Longrightarrow> lo \<le> clamp x lo hi \<and> clamp x lo hi \<le> hi"
  by (auto simp: clamp_def)

lemma trunc_nonpos: "x \<le> 0 \<Longrightarrow> trunc x \<le> 0"
  by (auto simp: trunc_def ceiling_le_iff)

lemma trunc_ge_int: "0 \<le> n \<Longrightarrow> of_int n \<le> x \<Longrightarrow> n \<le> trunc x"
  by (auto simp: trunc_def le_floor_iff)

lemma summarize_long:
  assumes "\<not> (\<forall>c\<in>set text. isspace c)"
    and "preprocess_text L s text = ((cleaned, sentences), s')"
    and "3 \<le> length sentences"
  shows "summarize L s text ratio =
     (case n_clusters (length sentences) ratio of
        Inl e \<Rightarrow> (Inl e, s')
      | Inr k \<Rightarrow> (summarize_normal L sentences k, s'))"
proof -
  from assms(1) have "text \<noteq> []" and "strip text \<noteq> []"
    by (auto simp: strip_eq_Nil_iff)
  with assms(2,3) show ?thesis
    by (simp add: summarize_def)
qed

lemma py_round2_unit:
  assumes "0 \<le> x" and "x \<le> 1"
  shows "0 \<le> py_round2 x \<and> py_round2 x \<le> 1"
proof -
  let ?m = "py_round (x * 100)"
  from assms py_round_near [of "x * 100"]
  have "- 1 / 2 \<le> (of_int ?m :: real)" and "(of_int ?m :: real) \<le> 100 + 1 / 2"
    by auto
  then have "0 \<le> ?m" and "?m \<le> 100"
    by linarith+
  then have "0 \<le> (of_int ?m :: real) / 100" and "(of_int ?m :: real) / 100 \<le> 1"
    by simp_all
  then show ?thesis
    unfolding py_round2_def by (intro conjI round_double_nonneg round_double_le_one)
qed

lemma py_truediv_unit:
  assumes "m \<le> n" and "n \<noteq> 0"
  shows "\<exists>q. py_truediv m n = Inr q \<and> 0 \<le> q \<and> q \<le> 1"
proof -
  from assms have "0 \<le> real m / real n" and "real m / real n \<le> 1"
    by (simp_all add: divide_le_eq_1)
  then have "0 \<le> round_double (real m / real n) \<and> round_double (real m / real n) \<le> 1"
    by (intro conjI round_double_nonneg round_double_le_one)
  with assms(2) show ?thesis
    by (simp add: py_truediv_def)
qed

lemma summarize_normal_InrD:
  assumes "summarize_normal L sentences k = Inr res"
  shows "\<exists>labels scores fraction.
     summary res = join_space (select_representative_sentences sentences labels scores) \<and>
     summary_sentence_count res = length (select_positions sentences labels scores) \<and>
     original_sentence_count res = length sentences \<and>
     py_truediv (length (select_positions sentences labels scores)) (length sentences) =
       Inr fraction \<and>
     compression_ratio res = py_round2 fraction"
proof -
  from assms obtain M scores fraction where
    fr: "py_truediv (length (select_representative_sentences sentences
                               (cluster_sentences L M k) scores))
           (length sentences) = Inr fraction"
    and res: "res = \<lparr>summary =
              join_space (select_representative_sentences sentences (cluster_sentences L M k) scores),
            original_sentence_count = length sentences,
            summary_sentence_count =
              length (select_representative_sentences sentences (cluster_sentences L M k) scores),
            compression_ratio = py_round2 fraction\<rparr>"
    by (auto simp: summarize_normal_def Let_def split: sum.splits)
  show ?thesis
    using fr
    by (intro exI [of _ "cluster_sentences L M k"] exI [of _ scores] exI [of _ fraction])
       (simp add: res select_representative_sentences_def)
qed

lemma summarize_normal_returns:
  assumes "fit_transform L sentences = Inr M" and "0 < n_features M" and "sentences \<noteq> []"
  shows "\<exists>res. summarize_normal L sentences k = Inr res"
  using assms
  by (simp add: summarize_normal_def build_tfidf_matrix_def get_sentence_scores_def
        py_truediv_def Let_def)

lemma n_clusters_invalid:
  assumes "r \<le> 0 \<or> 1 < r" and "\<bar>real n * r\<bar> < float_overflow"
    and "1 \<le> n" and "n \<le> 2 ^ 53"
  shows "n_clusters n (Finite r) = Inr (if r \<le> 0 then 1 else int n)"
proof -
  have len: "float_of_len n = real n"
    by (rule float_of_len_exact [OF assms(4)])
  have run: "n_clusters n (Finite r) =
      Inr (min (max 1 (trunc (round_double (real n * r)))) (int n))"
    using n_clusters_finite [of n r] assms(2) by (simp add: len)
  show ?thesis
  proof (cases "r \<le> 0")
    case True
    then have "real n * r \<le> 0"
      by (simp add: mult_nonneg_nonpos)
    then have "round_double (real n * r) \<le> 0"
      by (rule round_double_nonpos)
    then have "trunc (round_double (real n * r)) \<le> 0"
      by (rule trunc_nonpos)
    with True assms(3) show ?thesis
      by (simp add: run)
  next
    case False
    with assms(1) have "1 < r" by simp
    then have "real n * 1 \<le> real n * r"
      by (intro mult_left_mono) simp_all
    then have "real n \<le> round_double (real n * r)"
      by (intro round_double_ge_nat [OF assms(3,4)]) simp
    then have "int n \<le> trunc (round_double (real n * r))"
      by (intro trunc_ge_int) simp_all
    with False assms(3) show ?thesis
      by (simp add: run)
  qed
qed

lemma summarize_normal_well_formed:
  assumes "summarize_normal L sentences k = Inr res" and "sentences \<noteq> []"
  shows "original_sentence_count res = length sentences \<and>
     summary_sentence_count res \<le> length sentences \<and>
     0 \<le> compression_ratio res \<and> compression_ratio res \<le> 1"
proof -
  from summarize_normal_InrD [OF assms(1)] obtain labels scores fraction where
    n: "original_sentence_count res = length sentences" and
    m: "summary_sentence_count res = length (select_positions sentences labels scores)" and
    f: "py_truediv (length (select_positions sentences labels scores)) (length sentences) =
       Inr fraction" and
    c: "compression_ratio res = py_round2 fraction"
    by blast
  let ?m = "length (select_positions sentences labels scores)"
  have le: "?m \<le> length sentences"
    by (rule select_positions_length)
  from assms(2) have "length sentences \<noteq> 0"
    by simp
  from py_truediv_unit [OF le this] f have "0 \<le> fraction" and "fraction \<le> 1"
    by auto
  then have "0 \<le> compression_ratio res \<and> compression_ratio res \<le> 1"
    unfolding c by (rule py_round2_unit)
  with n m le show ?thesis
    by simp
qed

lemma summarize_InrD:
  assumes "\<not> (\<forall>c\<in>set text. isspace c)"
    and "preprocess_text L s text = ((cleaned, sentences), s')"
    and "3 \<le> length sentences"
    and "summarize L s text ratio = (Inr res, s'')"
  shows "\<exists>k. n_clusters (length sentences) ratio = Inr k \<and>
     summarize_normal L sentences k = Inr res"
  using assms(4) summarize_long [OF assms(1-3), of ratio]
  by (auto split: sum.splits)

lemma sum_list_zero: "(\<forall>x\<in>set xs. x = (0::real)) \<Longrightarrow> sum_list xs = 0"
  by (induction xs) auto

section \<open>Rows of unit length\<close>

lemma l2_norm_eq_0_iff: "l2_norm row = 0 \<longleftrightarrow> (\<forall>x\<in>set row. x = 0)"
proof -
  have "(\<Sum>x\<leftarrow>row. x\<^sup>2) = 0 \<longleftrightarrow> (\<forall>y\<in>set (map (\<lambda>x. x\<^sup>2) row). y = 0)"
    by (rule sum_list_nonneg_eq_0_iff) auto
  then show ?thesis
    by (simp add: l2_norm_def)
qed

lemma sum_list_squares_divide:
  "(\<Sum>x\<leftarrow>row. (x / n)\<^sup>2) = (\<Sum>x\<leftarrow>row. x\<^sup>2) / n\<^sup>2" for n :: real
  by (induction row) (simp_all add: power_divide add_divide_distrib)

lemma l2_norm_scaled:
  assumes "l2_norm row \<noteq> 0"
  shows "l2_norm (map (\<lambda>x. x / l2_norm row) row) = 1"
proof -
  let ?s = "\<Sum>x\<leftarrow>row. x\<^sup>2"
  have nonneg: "0 \<le> ?s"
    by (rule sum_list_nonneg) auto
  then have sq: "(l2_norm row)\<^sup>2 = ?s"
    by (simp add: l2_norm_def)
  have "?s \<noteq> 0"
  proof
    assume "?s = 0"
    then have "l2_norm row = 0"
      by (simp add: l2_norm_def)
    with assms show False ..
  qed
  then have "?s / (l2_norm row)\<^sup>2 = 1"
    by (simp add: sq)
  then have "(\<Sum>x\<leftarrow>row. (x / l2_norm row)\<^sup>2) = 1"
    by (simp only: sum_list_squares_divide)
  then have "(\<Sum>y\<leftarrow>map (\<lambda>x. x / l2_norm row) row. y\<^sup>2) = 1"
    by (simp add: comp_def)
  then show ?thesis
    by (simp only: l2_norm_def real_sqrt_one)
qed

lemma l2_normalize_zero: "(\<forall>x\<in>set row. x = 0) \<Longrightarrow> l2_normalize row = row"
  by (simp add: l2_normalize_def l2_norm_eq_0_iff)

lemma l2_normalize_unit:
  assumes "\<not> (\<forall>x\<in>set row. x = 0)"
  shows "l2_norm (l2_normalize row) = 1"
proof -
  from assms have n: "l2_norm row \<noteq> 0"
    by (simp only: l2_norm_eq_0_iff not_False_eq_True)
  then have "l2_normalize row = map (\<lambda>x. x / l2_norm row) row"
    by (simp add: l2_normalize_def)
  with l2_norm_scaled [OF n] show ?thesis
    by simp
qed

lemma fit_transform_InrD:
  assumes "fit_transform L sentences = Inr M"
  shows "\<exists>W. tfidf_weights L sentences = Inr W \<and> n_features M = n_features W \<and>
     rows M = map l2_normalize (rows W)"
  using assms by (auto simp: fit_transform_def split: sum.splits)

section \<open>Runs of the model\<close>

lemmas select_defs =
  summarize_normal_def build_tfidf_matrix_def get_sentence_scores_def
  select_representative_sentences_def select_positions_def entries_def occupied_groups_def
  group_members_def representative_def List.map_filter_def py_truediv_def

lemmas count_defs =
  n_clusters_def float_of_real_def float_of_len_def float_overflow_def trunc_def

lemma upt_3: "[0..<3] = [0, 1, 2]"
  by (simp add: upt_rec)

lemma sqrt_25: "sqrt 25 = 5"
  by (rule real_sqrt_unique) simp_all

lemma l2_norm_3_4: "l2_norm [3 / 5, 4 / 5] = 1"
proof -
  have "(3 / 5)\<^sup>2 + (4 / 5)\<^sup>2 = (1::real)"
    by (simp add: power2_eq_square)
  then show ?thesis
    by (simp add: l2_norm_def)
qed

lemma round2_third: "py_round2 (round_double (1 / 3)) = round_double (33 / 100)"
proof -
  have "py_round (round_double (1 / 3) * 100) = 33"
    by (simp add: fl_defs)
  then show ?thesis
    by (simp add: py_round2_def)
qed

lemma round2_two_thirds: "py_round2 (round_double (2 / 3)) = round_double (67 / 100)"
proof -
  have "py_round (round_double (2 / 3) * 100) = 67"
    by (simp add: fl_defs)
  then show ?thesis
    by (simp add: py_round2_def)
qed

lemma round2_one: "py_round2 (round_double 1) = 1"
proof -
  have one: "round_double 1 = 1"
    using round_double_of_nat [of 1] by simp
  have "py_round (1 * 100) = 100"
    by (simp add: py_round_def)
  then show ?thesis
    by (simp add: py_round2_def one)
qed

lemma sample_nonblank:
  "\<not> (''Cats purr. Dogs bark. Birds sing.'' = [] \<or>
      (\<forall>c\<in>set ''Cats purr. Dogs bark. Birds sing.''. isspace c))"
  by (simp add: isspace_def)

lemma sample_preprocess:
  "preprocess_text sample_libs cold ''Cats purr. Dogs bark. Birds sing.'' =
     ((''Cats purr. Dogs bark. Birds sing.'',
       [''Cats purr.'', ''Dogs bark.'', ''Birds sing.'']), warm)"
  by (simp add: run_defs)

lemma sample_vectorizer:
  "fit_transform sample_libs [''Cats purr.'', ''Dogs bark.'', ''Birds sing.''] =
     Inr \<lparr>n_features = 2, rows = [[0, 1], [0, 1], [3 / 5, 4 / 5]]\<rparr>"
  by (simp add: fit_transform_def sample_libs_def l2_normalize_def l2_norm_def sqrt_25)

lemma sample_grouper:
  "cluster_sentences sample_libs \<lparr>n_features = 2, rows = [[0, 1], [0, 1], [3 / 5, 4 / 5]]\<rparr> k =
     [0 mod k, 1 mod k, 2 mod k]"
  by (simp add: sample_libs_def upt_3)

lemma sample_normal_1:
  "summarize_normal sample_libs [''Cats purr.'', ''Dogs bark.'', ''Birds sing.''] 1 =
     Inr \<lparr>summary = ''Birds sing.'', original_sentence_count = 3,
          summary_sentence_count = 1, compression_ratio = round_double (33 / 100)\<rparr>"
  by (simp add: select_defs sample_vectorizer sample_grouper upt_3 round2_third)

lemma sample_normal_2:
  "summarize_normal sample_libs [''Cats purr.'', ''Dogs bark.'', ''Birds sing.''] 2 =
     Inr \<lparr>summary = ''Dogs bark. Birds sing.'', original_sentence_count = 3,
          summary_sentence_count = 2, compression_ratio = round_double (67 / 100)\<rparr>"
  by (simp add: select_defs sample_vectorizer sample_grouper upt_3 round2_two_thirds)

lemma sample_normal_3:
  "summarize_normal sample_libs [''Cats purr.'', ''Dogs bark.'', ''Birds sing.''] 3 =
     Inr \<lparr>summary = ''Cats purr. Dogs bark. Birds sing.'', original_sentence_count = 3,
          summary_sentence_count = 3, compression_ratio = 1\<rparr>"
  by (simp add: select_defs sample_vectorizer sample_grouper upt_3 round2_one)

lemma sample_ratio_3_4:
  "n_clusters (length [''Cats purr.'', ''Dogs bark.'', ''Birds sing.'']) (Finite (3 / 4)) = Inr 2"
  by (simp add: count_defs fl_defs)

lemma sample_run_3_4:
  "summarize sample_libs cold ''Cats purr. Dogs bark. Birds sing.'' (Finite (3 / 4)) =
     (Inr \<lparr>summary = ''Dogs bark. Birds sing.'', original_sentence_count = 3,
           summary_sentence_count = 2, compression_ratio = round_double (67 / 100)\<rparr>, warm)"
  using sample_nonblank sample_preprocess sample_ratio_3_4 sample_normal_2
    summarize_long [of "''Cats purr. Dogs bark. Birds sing.''" sample_libs cold
        "''Cats purr. Dogs bark. Birds sing.''"
        "[''Cats purr.'', ''Dogs bark.'', ''Birds sing.'']" warm "Finite (3 / 4)"]
  by simp

lemma ten_nonblank:
  "\<not> (''A. B. C. D. E. F. G. H. I. J.'' = [] \<or>
      (\<forall>c\<in>set ''A. B. C. D. E. F. G. H. I. J.''. isspace c))"
  by (simp add: isspace_def)

lemma ten_preprocess:
  "preprocess_text sample_libs cold ''A. B. C. D. E. F. G. H. I. J.'' =
     ((''A. B. C. D. E. F. G. H. I. J.'',
       [''A.'', ''B.'', ''C.'', ''D.'', ''E.'', ''F.'', ''G.'', ''H.'', ''I.'', ''J.'']), warm)"
  by (simp add: run_defs)

lemma float_of_len_10: "float_of_len 10 = 10"
  using float_of_len_exact [of 10] by simp

lemma ten_times_default: "round_double (10 * (5404319552844595 / 18014398509481984)) = 3"
  by (simp add: fl_defs)

section \<open>The group count\<close>

text \<open>
  Claim C1. The claim reads: for every text with at least three sentences and every ratio,
  the group count is \<open>clamp(round(N * ratio), 1, N)\<close>. The code truncates instead of
  rounding: with three sentences and the ratio 0.625 the product is 1.875, so the code
  uses one group where the formula of the claim gives two.
\<close>

theorem group_count_rounds_counterexample:
  "n_clusters 3 (Finite (5 / 8)) = Inr 1 \<and> spec_group_count 3 (5 / 8) = 2"
  by (simp add: count_defs fl_defs spec_group_count_def clamp_def)

text \<open>
  Claim C1, as amended. For a text with at least three sentences and a finite ratio whose
  product with \<open>N\<close> stays in the range of a float, the group count that \<open>summarize\<close>
  passes on is \<open>clamp(trunc(p), 1, N)\<close>, where \<open>p\<close> is the float product \<open>N * ratio\<close>
  (the exact product rounded to the nearest double) and \<open>trunc\<close> drops the fractional
  part; it is at least 1 and at most \<open>N\<close>. With ten sentences and the default ratio 0.3
  the float product is exactly 3.0 and the group count is 3.
\<close>

theorem group_count_truncates:
  assumes "\<not> (text = [] \<or> (\<forall>c\<in>set text. isspace c))"
    and "preprocess_text L s text = ((cleaned, sentences), s')"
    and "3 \<le> length sentences"
    and "\<bar>float_of_len (length sentences) * r\<bar> < float_overflow"
  shows "\<exists>k. n_clusters (length sentences) (Finite r) = Inr k \<and>
      summarize L s text (Finite r) = (summarize_normal L sentences k, s') \<and>
      k = clamp (trunc (round_double (float_of_len (length sentences) * r))) 1
            (int (length sentences)) \<and>
      1 \<le> k \<and> k \<le> int (length sentences)"
proof -
  let ?n = "length sentences"
  let ?k = "clamp (trunc (round_double (float_of_len ?n * r))) 1 (int ?n)"
  have n1: "1 \<le> int ?n"
    using assms(3) by simp
  have k: "n_clusters ?n (Finite r) = Inr ?k"
    using n_clusters_finite [OF assms(4)] clamp_code_order [OF n1] by simp
  have "summarize L s text (Finite r) = (summarize_normal L sentences ?k, s')"
    using summarize_long [of "text" L s cleaned sentences s' "Finite r"] assms(1-3) k
    by simp
  with k clamp_bounds [OF n1] show ?thesis
    by blast
qed

theorem group_count_truncates_witness:
  "\<not> (''A. B. C. D. E. F. G. H. I. J.'' = [] \<or>
      (\<forall>c\<in>set ''A. B. C. D. E. F. G. H. I. J.''. isspace c)) \<and>
   preprocess_text sample_libs cold ''A. B. C. D. E. F. G. H. I. J.'' =
     ((''A. B. C. D. E. F. G. H. I. J.'',
       [''A.'', ''B.'', ''C.'', ''D.'', ''E.'', ''F.'', ''G.'', ''H.'', ''I.'', ''J.'']), warm) \<and>
   round_double (3 / 10) = 5404319552844595 / 18014398509481984 \<and>
   n_clusters 10 (Finite (5404319552844595 / 18014398509481984)) = Inr 3 \<and>
   summarize sample_libs cold ''A. B. C. D. E. F. G. H. I. J.''
       (Finite (5404319552844595 / 18014398509481984)) =
     (summarize_normal sample_libs
        [''A.'', ''B.'', ''C.'', ''D.'', ''E.'', ''F.'', ''G.'', ''H.'', ''I.'', ''J.''] 3, warm)"
proof -
  have len: "length [''A.'', ''B.'', ''C.'', ''D.'', ''E.'', ''F.'', ''G.'', ''H.'', ''I.'', ''J.''] = 10"
    by simp
  have h3: "3 \<le> length [''A.'', ''B.'', ''C.'', ''D.'', ''E.'', ''F.'', ''G.'', ''H.'', ''I.'', ''J.'']"
    by simp
  have h4: "\<bar>float_of_len
               (length [''A.'', ''B.'', ''C.'', ''D.'', ''E.'', ''F.'', ''G.'', ''H.'', ''I.'', ''J.'']) *
             (5404319552844595 / 18014398509481984)\<bar> < float_overflow"
    unfolding len float_of_len_10 by (simp add: float_overflow_def)
  have k: "clamp (trunc (round_double (10 * (5404319552844595 / 18014398509481984)))) 1 (int 10) = 3"
    unfolding ten_times_default by (simp add: clamp_def trunc_def)
  have lit: "round_double (3 / 10) = 5404319552844595 / 18014398509481984"
    by (simp add: fl_defs)
  have "n_clusters 10 (Finite (5404319552844595 / 18014398509481984)) = Inr 3 \<and>
    summarize sample_libs cold ''A. B. C. D. E. F. G. H. I. J.''
       (Finite (5404319552844595 / 18014398509481984)) =
     (summarize_normal sample_libs
        [''A.'', ''B.'', ''C.'', ''D.'', ''E.'', ''F.'', ''G.'', ''H.'', ''I.'', ''J.''] 3, warm)"
    using group_count_truncates [OF ten_nonblank ten_preprocess h3 h4]
    unfolding len float_of_len_10 k by blast
  with ten_nonblank ten_preprocess lit show ?thesis
    by blast
qed

text \<open>
  Claim C7. The claim reads: for every ratio that is at most 0 or greater than 1,
  \<open>summarize\<close> does not fail. It fails with \<open>OverflowError\<close> when the ratio is
  infinite, and when the ratio is so large (here \<open>1e308\<close>) that its product with the
  number of sentences overflows to infinity: \<open>int\<close> rejects an infinity.
\<close>

theorem invalid_ratio_counterexample:
  "summarize sample_libs cold ''Cats purr. Dogs bark. Birds sing.'' PosInf =
     (Inl OverflowError, warm) \<and>
   summarize sample_libs cold ''Cats purr. Dogs bark. Birds sing.'' (Finite (10 ^ 308)) =
     (Inl OverflowError, warm)"
proof -
  have len: "length [''Cats purr.'', ''Dogs bark.'', ''Birds sing.''] = 3"
    by simp
  have three: "float_of_len 3 = 3"
    using float_of_len_exact [of 3] by simp
  have "n_clusters (length [''Cats purr.'', ''Dogs bark.'', ''Birds sing.'']) PosInf =
      Inl OverflowError"
    by (simp add: n_clusters_def)
  moreover have
    "n_clusters (length [''Cats purr.'', ''Dogs bark.'', ''Birds sing.'']) (Finite (10 ^ 308)) =
      Inl OverflowError"
    unfolding len by (simp add: n_clusters_def three float_of_real_def float_overflow_def)
  ultimately show ?thesis
    using sample_nonblank sample_preprocess
      summarize_long [of "''Cats purr. Dogs bark. Birds sing.''" sample_libs cold
        "''Cats purr. Dogs bark. Birds sing.''"
        "[''Cats purr.'', ''Dogs bark.'', ''Birds sing.'']" warm]
    by simp
qed

text \<open>
  Claim C7, as amended. For a text with at least three sentences (at most \<open>2\<^sup>5\<^sup>3\<close> of
  them, so that their number is a float exactly) and a finite ratio that is at most 0 or
  greater than 1 and whose product with \<open>N\<close> stays in the range of a float, the group
  count is 1 when the ratio is at most 0 and \<open>N\<close> when it is greater than 1; and when the
  vectorizer returns a matrix with at least one column, \<open>summarize\<close> returns a result
  whose original count is \<open>N\<close>, whose summary count is at most \<open>N\<close> and whose
  compression ratio lies between 0 and 1.
\<close>

theorem invalid_ratio_clamped:
  assumes "\<not> (text = [] \<or> (\<forall>c\<in>set text. isspace c))"
    and "preprocess_text L s text = ((cleaned, sentences), s')"
    and "3 \<le> length sentences"
    and "length sentences \<le> 2 ^ 53"
    and "r \<le> 0 \<or> 1 < r"
    and "\<bar>real (length sentences) * r\<bar> < float_overflow"
    and "fit_transform L sentences = Inr M"
    and "0 < n_features M"
  shows "n_clusters (length sentences) (Finite r) =
       Inr (if r \<le> 0 then 1 else int (length sentences)) \<and>
     (\<exists>res. summarize L s text (Finite r) = (Inr res, s') \<and>
        original_sentence_count res = length sentences \<and>
        summary_sentence_count res \<le> length sentences \<and>
        0 \<le> compression_ratio res \<and> compression_ratio res \<le> 1)"
proof -
  let ?k = "if r \<le> 0 then 1 else int (length sentences)"
  from assms(3) have n1: "1 \<le> length sentences" and ne: "sentences \<noteq> []"
    by auto
  have k: "n_clusters (length sentences) (Finite r) = Inr ?k"
    by (rule n_clusters_invalid [OF assms(5,6) n1 assms(4)])
  from summarize_normal_returns [OF assms(7,8) ne]
  obtain res where res: "summarize_normal L sentences ?k = Inr res"
    by blast
  have "summarize L s text (Finite r) = (Inr res, s')"
    using summarize_long [of "text" L s cleaned sentences s' "Finite r"] assms(1-3) k res
    by simp
  with k summarize_normal_well_formed [OF res ne] show ?thesis
    by blast
qed

theorem invalid_ratio_clamped_witness:
  "\<not> (''Cats purr. Dogs bark. Birds sing.'' = [] \<or>
      (\<forall>c\<in>set ''Cats purr. Dogs bark. Birds sing.''. isspace c)) \<and>
   preprocess_text sample_libs cold ''Cats purr. Dogs bark. Birds sing.'' =
     ((''Cats purr. Dogs bark. Birds sing.'',
       [''Cats purr.'', ''Dogs bark.'', ''Birds sing.'']), warm) \<and>
   3 \<le> length [''Cats purr.'', ''Dogs bark.'', ''Birds sing.''] \<and>
   length [''Cats purr.'', ''Dogs bark.'', ''Birds sing.''] \<le> 2 ^ 53 \<and>
   ((2::real) \<le> 0 \<or> 1 < (2::real)) \<and>
   \<bar>real (length [''Cats purr.'', ''Dogs bark.'', ''Birds sing.'']) * 2\<bar> < float_overflow \<and>
   fit_transform sample_libs [''Cats purr.'', ''Dogs bark.'', ''Birds sing.''] =
     Inr \<lparr>n_features = 2, rows = [[0, 1], [0, 1], [3 / 5, 4 / 5]]\<rparr> \<and>
   0 < n_features \<lparr>n_features = 2, rows = [[0, 1], [0, 1], [3 / 5, 4 / 5]]\<rparr> \<and>
   n_clusters 3 (Finite 2) = Inr 3 \<and>
   (\<exists>res. summarize sample_libs cold ''Cats purr. Dogs bark. Birds sing.'' (Finite 2) =
       (Inr res, warm) \<and>
      original_sentence_count res = 3 \<and> summary_sentence_count res \<le> 3)"
proof -
  have h3: "3 \<le> length [''Cats purr.'', ''Dogs bark.'', ''Birds sing.'']"
    by simp
  have h53: "length [''Cats purr.'', ''Dogs bark.'', ''Birds sing.''] \<le> 2 ^ 53"
    by simp
  have h4: "(2::real) \<le> 0 \<or> 1 < (2::real)"
    by simp
  have h5: "\<bar>real (length [''Cats purr.'', ''Dogs bark.'', ''Birds sing.'']) * 2\<bar>
      < float_overflow"
    by (simp add: float_overflow_def)
  have h7: "0 < n_features \<lparr>n_features = 2, rows = [[0, 1], [0, 1], [3 / 5, 4 / 5]]\<rparr>"
    by simp
  have len: "length [''Cats purr.'', ''Dogs bark.'', ''Birds sing.''] = 3"
    by simp
  have k: "(if (2::real) \<le> 0 then 1 else int 3) = 3"
    by simp
  have "n_clusters 3 (Finite 2) = Inr 3 \<and>
   (\<exists>res. summarize sample_libs cold ''Cats purr. Dogs bark. Birds sing.'' (Finite 2) =
       (Inr res, warm) \<and>
      original_sentence_count res = 3 \<and> summary_sentence_count res \<le> 3)"
    using invalid_ratio_clamped
      [OF sample_nonblank sample_preprocess h3 h53 h4 h5 sample_vectorizer h7]
    unfolding len k by blast
  with sample_nonblank sample_preprocess h3 h53 h4 h5 sample_vectorizer h7 show ?thesis
    by blast
qed

section \<open>The summary of the normal regime\<close>

text \<open>
  Claim C8. In the normal regime (at least three sentences) the summary that
  \<open>summarize\<close> returns is made of the sentences at positions \<open>ps\<close> of the input, joined
  by single spaces, where \<open>ps\<close> is strictly increasing, every position is below \<open>N\<close>,
  and there are at most \<open>N\<close> of them; the summary count is their number. This holds for
  every vectorizer and every grouper, so whatever the labels and the scores are.
\<close>

theorem representatives_in_document_order:
  assumes "\<not> (text = [] \<or> (\<forall>c\<in>set text. isspace c))"
    and "preprocess_text L s text = ((cleaned, sentences), s')"
    and "3 \<le> length sentences"
    and "summarize L s text ratio = (Inr res, s'')"
  shows "\<exists>ps. sorted_wrt (<) ps \<and> (\<forall>p\<in>set ps. p < length sentences) \<and>
     length ps \<le> length sentences \<and>
     summary res = join_space (map (\<lambda>p. sentences ! p) ps) \<and>
     summary_sentence_count res = length ps"
proof -
  from assms(1) have nb: "\<not> (\<forall>c\<in>set text. isspace c)"
    by auto
  from summarize_InrD [OF nb assms(2-4)]
  obtain k where "summarize_normal L sentences k = Inr res"
    by blast
  from summarize_normal_InrD [OF this] obtain labels scores fraction where
    sm: "summary res = join_space (select_representative_sentences sentences labels scores)"
    and ct: "summary_sentence_count res = length (select_positions sentences labels scores)"
    by blast
  let ?ps = "select_positions sentences labels scores"
  have "sorted_wrt (<) ?ps"
    by (rule select_positions_sorted)
  moreover have "\<forall>p\<in>set ?ps. p < length sentences"
    by (auto dest: select_positions_bound)
  moreover have "length ?ps \<le> length sentences"
    by (rule select_positions_length)
  moreover have "summary res = join_space (map (\<lambda>p. sentences ! p) ?ps)"
    using sm by (simp add: select_representative_sentences_def)
  ultimately show ?thesis
    using ct by blast
qed

theorem representatives_in_document_order_witness:
  "\<not> (''Cats purr. Dogs bark. Birds sing.'' = [] \<or>
      (\<forall>c\<in>set ''Cats purr. Dogs bark. Birds sing.''. isspace c)) \<and>
   preprocess_text sample_libs cold ''Cats purr. Dogs bark. Birds sing.'' =
     ((''Cats purr. Dogs bark. Birds sing.'',
       [''Cats purr.'', ''Dogs bark.'', ''Birds sing.'']), warm) \<and>
   3 \<le> length [''Cats purr.'', ''Dogs bark.'', ''Birds sing.''] \<and>
   summarize sample_libs cold ''Cats purr. Dogs bark. Birds sing.'' (Finite (3 / 4)) =
     (Inr \<lparr>summary = ''Dogs bark. Birds sing.'', original_sentence_count = 3,
           summary_sentence_count = 2, compression_ratio = round_double (67 / 100)\<rparr>, warm) \<and>
   (\<exists>ps. sorted_wrt (<) ps \<and>
      (\<forall>p\<in>set ps. p < length [''Cats purr.'', ''Dogs bark.'', ''Birds sing.'']) \<and>
      ''Dogs bark. Birds sing.'' =
        join_space (map (\<lambda>p. [''Cats purr.'', ''Dogs bark.'', ''Birds sing.''] ! p) ps) \<and>
      length ps = 2)"
proof -
  have h3: "3 \<le> length [''Cats purr.'', ''Dogs bark.'', ''Birds sing.'']"
    by simp
  from representatives_in_document_order
      [OF sample_nonblank sample_preprocess h3 sample_run_3_4]
  obtain ps where a: "sorted_wrt (<) ps"
    and b: "\<forall>p\<in>set ps. p < length [''Cats purr.'', ''Dogs bark.'', ''Birds sing.'']"
    and c: "summary \<lparr>summary = ''Dogs bark. Birds sing.'', original_sentence_count = 3,
           summary_sentence_count = 2, compression_ratio = round_double (67 / 100)\<rparr> =
        join_space (map (\<lambda>p. [''Cats purr.'', ''Dogs bark.'', ''Birds sing.''] ! p) ps)"
    and d: "summary_sentence_count \<lparr>summary = ''Dogs bark. Birds sing.'',
           original_sentence_count = 3, summary_sentence_count = 2,
           compression_ratio = round_double (67 / 100)\<rparr> = length ps"
    by blast
  from c have c': "''Dogs bark. Birds sing.'' =
        join_space (map (\<lambda>p. [''Cats purr.'', ''Dogs bark.'', ''Birds sing.''] ! p) ps)"
    by (simp only: summary_result.select_convs)
  from d have d': "length ps = 2"
    by (simp only: summary_result.select_convs)
  from a b c' d' sample_nonblank sample_preprocess h3 sample_run_3_4 show ?thesis
    by blast
qed

section \<open>The Vectorizer\<close>

text \<open>
  Claim C5. Every row of the matrix that the Vectorizer returns has Euclidean norm 1 or
  consists of zeros only: a row whose weights are all zero is returned as it is, and
  every other row is returned with norm 1. The weights are reals, so the norm is
  exactly 1.
\<close>

theorem weighted_rows_unit_or_zero:
  assumes "build_tfidf_matrix L sentences = Inr M"
  shows "(\<forall>row\<in>set (rows M). l2_norm row = 1 \<or> (\<forall>x\<in>set row. x = 0)) \<and>
     (\<exists>W. tfidf_weights L sentences = Inr W \<and> length (rows M) = length (rows W) \<and>
        (\<forall>i<length (rows W).
           if \<forall>x\<in>set (rows W ! i). x = 0 then rows M ! i = rows W ! i
           else l2_norm (rows M ! i) = 1))"
proof -
  from assms have "fit_transform L sentences = Inr M"
    by (simp add: build_tfidf_matrix_def)
  from fit_transform_InrD [OF this] obtain W where
    W: "tfidf_weights L sentences = Inr W" and rs: "rows M = map l2_normalize (rows W)"
    by blast
  have each: "l2_norm (l2_normalize row) = 1 \<or> (\<forall>x\<in>set (l2_normalize row). x = 0)" for row
    using l2_normalize_zero [of row] l2_normalize_unit [of row] by (cases "\<forall>x\<in>set row. x = 0") auto
  have "\<forall>row\<in>set (rows M). l2_norm row = 1 \<or> (\<forall>x\<in>set row. x = 0)"
    unfolding rs using each by auto
  moreover have "\<forall>i<length (rows W).
           if \<forall>x\<in>set (rows W ! i). x = 0 then rows M ! i = rows W ! i
           else l2_norm (rows M ! i) = 1"
    unfolding rs using l2_normalize_zero l2_normalize_unit by simp
  moreover have "length (rows M) = length (rows W)"
    by (simp add: rs)
  ultimately show ?thesis
    using W by blast
qed

theorem weighted_rows_unit_or_zero_witness:
  "build_tfidf_matrix sample_libs [''Hi.'', ''Cats purr.'', ''Birds sing.''] =
     Inr \<lparr>n_features = 2, rows = [[0, 0], [0, 1], [3 / 5, 4 / 5]]\<rparr> \<and>
   l2_norm [0, 1] = 1 \<and> l2_norm [3 / 5, 4 / 5] = 1"
proof -
  have run: "build_tfidf_matrix sample_libs [''Hi.'', ''Cats purr.'', ''Birds sing.''] =
     Inr \<lparr>n_features = 2, rows = [[0, 0], [0, 1], [3 / 5, 4 / 5]]\<rparr>"
    by (simp add: build_tfidf_matrix_def fit_transform_def sample_libs_def l2_normalize_def
          l2_norm_def sqrt_25)
  from weighted_rows_unit_or_zero [OF run]
  have all: "\<forall>row\<in>set [[0, 0], [0, 1], [3 / 5, 4 / 5 :: real]].
      l2_norm row = 1 \<or> (\<forall>x\<in>set row. x = 0)"
    by simp
  from all have "l2_norm [0, 1] = 1"
    by simp
  moreover from all have "l2_norm [3 / 5, 4 / 5] = 1"
    by simp
  ultimately show ?thesis
    using run by blast
qed

section \<open>The Scorer\<close>

text \<open>
  Claim C6. For a matrix with at least one column whose rows all have that many cells,
  the Scorer returns one score per row, the sum of the row's cells divided by the number
  of columns, zero cells included. A row of zeros scores exactly 0, a row without negative
  cells has a non-negative score, and whatever the scores are, the Selector picks a
  representative for the group of every sentence, so a sentence with an all-zero row is
  not dropped: it is selected when it is alone in its group.
\<close>

theorem scores_are_row_means:
  assumes "0 < n_features M"
    and "\<forall>row\<in>set (rows M). length row = n_features M"
  shows "\<exists>scores. get_sentence_scores M = Inr scores \<and>
     length scores = length (rows M) \<and>
     (\<forall>i<length (rows M).
        scores ! i = sum_list (rows M ! i) / real (length (rows M ! i)) \<and>
        ((\<forall>x\<in>set (rows M ! i). x = 0) \<longrightarrow> scores ! i = 0) \<and>
        ((\<forall>x\<in>set (rows M ! i). 0 \<le> x) \<longrightarrow> 0 \<le> scores ! i)) \<and>
     (\<forall>sentences labels i.
        length sentences = length (rows M) \<and> length labels = length (rows M) \<and>
        i < length (rows M) \<longrightarrow>
        (\<exists>p\<in>set (select_positions sentences labels scores). labels ! p = labels ! i))"
proof -
  let ?scores = "map (\<lambda>row. sum_list row / real (n_features M)) (rows M)"
  have run: "get_sentence_scores M = Inr ?scores"
    using assms(1) by (simp add: get_sentence_scores_def)
  have rowwise: "scores_i = sum_list (rows M ! i) / real (length (rows M ! i)) \<and>
        ((\<forall>x\<in>set (rows M ! i). x = 0) \<longrightarrow> scores_i = 0) \<and>
        ((\<forall>x\<in>set (rows M ! i). 0 \<le> x) \<longrightarrow> 0 \<le> scores_i)"
    if "i < length (rows M)" and "scores_i = ?scores ! i" for i scores_i
  proof -
    from that(1) assms(2) have len: "length (rows M ! i) = n_features M"
      by simp
    from that have eq: "scores_i = sum_list (rows M ! i) / real (n_features M)"
      by simp
    show ?thesis
      using eq len sum_list_zero [of "rows M ! i"] sum_list_nonneg [of "rows M ! i"]
      by auto
  qed
  have eligible: "\<exists>p\<in>set (select_positions sentences labels ?scores). labels ! p = labels ! i"
    if "length sentences = length (rows M)" and "length labels = length (rows M)"
      and "i < length (rows M)" for sentences labels i
    using that by (intro group_is_represented) simp_all
  show ?thesis
    using run rowwise eligible by (intro exI [of _ ?scores]) simp
qed

theorem scores_are_row_means_witness:
  "0 < n_features sample_matrix \<and>
   get_sentence_scores sample_matrix = Inr [0, 7 / 10] \<and>
   (\<exists>scores. get_sentence_scores sample_matrix = Inr scores \<and> length scores = 2 \<and>
      scores ! 0 = 0 \<and> 0 \<le> scores ! 1)"
proof -
  have h1: "0 < n_features sample_matrix"
    by (simp add: sample_matrix_def)
  have h2: "\<forall>row\<in>set (rows sample_matrix). length row = n_features sample_matrix"
    by (simp add: sample_matrix_def)
  have run: "get_sentence_scores sample_matrix = Inr [0, 7 / 10]"
    by (simp add: get_sentence_scores_def sample_matrix_def)
  have rws: "rows sample_matrix = [[0, 0], [3 / 5, 4 / 5]]"
    by (simp add: sample_matrix_def)
  from scores_are_row_means [OF h1 h2] obtain scores where
    s: "get_sentence_scores sample_matrix = Inr scores"
    and l: "length scores = length (rows sample_matrix)"
    and r: "\<forall>i<length (rows sample_matrix).
        scores ! i = sum_list (rows sample_matrix ! i) / real (length (rows sample_matrix ! i)) \<and>
        ((\<forall>x\<in>set (rows sample_matrix ! i). x = 0) \<longrightarrow> scores ! i = 0) \<and>
        ((\<forall>x\<in>set (rows sample_matrix ! i). 0 \<le> x) \<longrightarrow> 0 \<le> scores ! i)"
    by blast
  from r have "scores ! 0 = 0"
    unfolding rws by simp
  moreover from r have "0 \<le> scores ! 1"
    unfolding rws by simp
  moreover from l have "length scores = 2"
    unfolding rws by simp
  ultimately show ?thesis
    using h1 run s by blast
qed

end
